theory Spec2Isabelle
  imports Complex_Main "HOL-Library.AList"
begin

section \<open>Python exceptions\<close>

text \<open>
  The exceptions that the modelled functions can raise. \<open>Raised\<close> stands for any
  exception thrown by an opaque library object (the scikit-learn model, the scaler).
\<close>

datatype py_error = ValueError | KeyError | IndexError | ZeroDivisionError | Raised string

text \<open>Sequencing inside a \<open>try\<close> block: the first exception ends the block.\<close>

definition try_bind :: "py_error + 'a \<Rightarrow> ('a \<Rightarrow> py_error + 'b) \<Rightarrow> py_error + 'b" where
  "try_bind r f = (case r of Inl e \<Rightarrow> Inl e | Inr x \<Rightarrow> f x)"

section \<open>network_slicing.py\<close>

record slice_info =
  description :: string
  priority :: int
  bandwidth_weight :: real
  ideal_use :: string

text \<open>The result dictionary of \<open>apply_slice_policy\<close>: the slice's entry, its name and a time stamp.\<close>

record slice_policy = slice_info +
  slice :: string
  timestamp :: string

definition SLICE_DEFINITIONS :: "(string \<times> slice_info) list" where
  "SLICE_DEFINITIONS =
     [(''eMBB'', \<lparr>description = ''Enhanced Mobile Broadband'', priority = 2,
                 bandwidth_weight = 50 / 100,
                 ideal_use = ''High-speed data, streaming, big packets''\<rparr>),
      (''URLLC'', \<lparr>description = ''Ultra Reliable Low Latency Communications'', priority = 1,
                  bandwidth_weight = 30 / 100,
                  ideal_use = ''Critical real-time traffic, low latency''\<rparr>),
      (''mMTC'', \<lparr>description = ''Massive Machine Type Communications'', priority = 3,
                 bandwidth_weight = 20 / 100,
                 ideal_use = ''IoT sensors, small frequent packets''\<rparr>)]"

definition classify_slice :: "int \<Rightarrow> string \<Rightarrow> real \<Rightarrow> string" where
  "classify_slice packet_size protocol pps =
     (if pps > 200 \<or> protocol = ''ICMP'' then ''URLLC''
      else if packet_size < 200 \<and> pps < 20 then ''mMTC''
      else ''eMBB'')"

text \<open>
  \<open>SLICE_DEFINITIONS.get(slice_name, SLICE_DEFINITIONS["eMBB"])\<close>: the default is looked
  up first (a missing key would raise KeyError), then the requested name. The second
  argument is the reading of \<open>datetime.now().isoformat()\<close>.
\<close>

definition apply_slice_policy :: "string \<Rightarrow> string \<Rightarrow> py_error + slice_policy" where
  "apply_slice_policy slice_name now_iso =
     (case map_of SLICE_DEFINITIONS ''eMBB'' of
        None \<Rightarrow> Inl KeyError
      | Some dflt \<Rightarrow>
          (let slice_info = (case map_of SLICE_DEFINITIONS slice_name of
                               Some i \<Rightarrow> i | None \<Rightarrow> dflt)
           in Inr \<lparr>description = description slice_info,
                   priority = priority slice_info,
                   bandwidth_weight = bandwidth_weight slice_info,
                   ideal_use = ideal_use slice_info,
                   slice = slice_name,
                   timestamp = now_iso\<rparr>))"

definition get_network_slice :: "int \<Rightarrow> string \<Rightarrow> real \<Rightarrow> string \<Rightarrow> py_error + slice_policy" where
  "get_network_slice packet_size protocol pps now_iso =
     (let slice_name = classify_slice packet_size protocol pps
      in apply_slice_policy slice_name now_iso)"

section \<open>app.py: model or fallback detector\<close>

text \<open>
  The scikit-learn model is opaque: \<open>predict\<close> and \<open>predict_proba\<close> take the list of
  feature rows and either raise or return one label, respectively one row of class
  probabilities, per input row. \<open>model = None\<close> when loading failed.
\<close>

record sk_model =
  n_features_in :: nat
  predict :: "real list list \<Rightarrow> py_error + int list"
  predict_proba :: "real list list \<Rightarrow> py_error + real list list"

text \<open>\<open>EXPECTED_FEATURES = model.n_features_in_ if model else 0\<close>.\<close>

definition EXPECTED_FEATURES :: "sk_model option \<Rightarrow> nat" where
  "EXPECTED_FEATURES model = (case model of Some m \<Rightarrow> n_features_in m | None \<Rightarrow> 0)"

definition build_features :: "sk_model option \<Rightarrow> int \<Rightarrow> real \<Rightarrow> real list" where
  "build_features model pkt_size pps =
     (let base = [1, pps, real_of_int pkt_size / 100, 0.5, 0.3, 10.0, 1, 1, 1]
      in if length base > EXPECTED_FEATURES model then take (EXPECTED_FEATURES model) base
         else if length base < EXPECTED_FEATURES model
           then base @ replicate (EXPECTED_FEATURES model - length base) 0.0
         else base)"

text \<open>Indexing \<open>[0]\<close> of a returned array, and \<open>.max()\<close> of a row.\<close>

definition first_item :: "'a list \<Rightarrow> py_error + 'a" where
  "first_item xs = (case xs of [] \<Rightarrow> Inl IndexError | x # _ \<Rightarrow> Inr x)"

fun max_from :: "real \<Rightarrow> real list \<Rightarrow> real" where
  "max_from b [] = b"
| "max_from b (x # xs) = max_from (if x > b then x else b) xs"

definition array_max :: "real list \<Rightarrow> py_error + real" where
  "array_max xs = (case xs of [] \<Rightarrow> Inl ValueError | x # rest \<Rightarrow> Inr (max_from x rest))"

text \<open>The body of the \<open>try\<close> in \<open>is_ddos_attack\<close>: any step may raise.\<close>

definition ml_decision :: "sk_model \<Rightarrow> int \<Rightarrow> real \<Rightarrow> py_error + bool" where
  "ml_decision m pkt_size pps =
     (let feats = build_features (Some m) pkt_size pps in
      try_bind (predict m [feats]) (\<lambda>labels.
      try_bind (first_item labels) (\<lambda>pred.
      try_bind (predict_proba m [feats]) (\<lambda>rows.
      try_bind (first_item rows) (\<lambda>row.
      try_bind (array_max row) (\<lambda>prob.
      Inr (pred = 1 \<and> prob > 0.7)))))))"

text \<open>
  \<open>except Exception\<close> logs and returns False; without a model the rate threshold decides.
\<close>

definition is_ddos_attack :: "sk_model option \<Rightarrow> int \<Rightarrow> real \<Rightarrow> bool" where
  "is_ddos_attack model pkt_size pps =
     (case model of
        Some m \<Rightarrow> (case ml_decision m pkt_size pps of Inr b \<Rightarrow> b | Inl e \<Rightarrow> False)
      | None \<Rightarrow> pps > 50)"

definition is_ddos_attack_for_ip ::
  "string set \<Rightarrow> sk_model option \<Rightarrow> string \<Rightarrow> int \<Rightarrow> real \<Rightarrow> bool \<Rightarrow> bool" where
  "is_ddos_attack_for_ip FORCE_MALICIOUS_IPS model src_ip pkt_size pps simulated =
     (if simulated then True
      else if src_ip \<in> FORCE_MALICIOUS_IPS then True
      else is_ddos_attack model pkt_size pps)"

section \<open>ml_detection.py: the detection result\<close>

text \<open>
  The detection result dictionary. \<open>error\<close> is present only on the \<open>except\<close> path,
  \<open>timestamp\<close> and \<open>model_version\<close> only on the normal one.
\<close>

record detection_result =
  prediction :: "string option"
  confidence :: "real option"
  threat_level :: "string option"
  produced_at :: "string option"
  model_version :: "string option"
  error :: "string option"

text \<open>\<open>round(confidence, 4)\<close>, to the nearest multiple of 0.0001, ties to even.\<close>

definition round4 :: "real \<Rightarrow> real" where
  "round4 x =
     (let y = x * 10000; f = \<lfloor>y\<rfloor>; d = y - of_int f;
          n = (if d < 1 / 2 then f else if d > 1 / 2 then f + 1
               else if even f then f else f + 1)
      in of_int n / 10000)"

section \<open>app.py: rate tracker\<close>

text \<open>
  \<open>timestamps\<close> is a \<open>defaultdict(deque)\<close>: every source has a queue, empty until
  something is appended. Time stamps are the floats of \<open>time.time()\<close>, read as reals.
\<close>

record RateTracker =
  window :: real
  timestamps :: "string \<Rightarrow> real list"

text \<open>The loop \<open>while q and ts - q[0] > self.window: q.popleft()\<close>.\<close>

fun popleft_while :: "real \<Rightarrow> real \<Rightarrow> real list \<Rightarrow> real list" where
  "popleft_while w ts [] = []"
| "popleft_while w ts (t # q) = (if ts - t > w then popleft_while w ts q else t # q)"

definition add :: "RateTracker \<Rightarrow> string \<Rightarrow> real \<Rightarrow> RateTracker" where
  "add rt src_ip ts =
     rt\<lparr>timestamps := (timestamps rt)
          (src_ip := popleft_while (window rt) ts (timestamps rt src_ip @ [ts]))\<rparr>"

text \<open>
  \<open>len(q) / self.window if q else 0.0\<close>. The division raises ZeroDivisionError when the
  window is zero and the queue is not empty. \<open>pps\<close> takes no time and purges nothing.
\<close>

definition pps :: "RateTracker \<Rightarrow> string \<Rightarrow> py_error + real" where
  "pps rt src_ip =
     (let q = timestamps rt src_ip
      in if q \<noteq> [] then
           (if window rt = 0 then Inl ZeroDivisionError
            else Inr (real (length q) / window rt))
         else Inr 0)"


section \<open>Python dictionaries and slices\<close>

text \<open>
  A \<open>dict\<close> whose iteration order matters is an association list in insertion order with
  distinct keys: \<open>d[k] = v\<close> is \<open>AList.update\<close> (in place for a present key, at the end
  for a new one), \<open>del d[k]\<close> raises KeyError for a missing key.
\<close>

definition has_key :: "('k \<times> 'v) list \<Rightarrow> 'k \<Rightarrow> bool" where
  "has_key d k = (k \<in> set (map fst d))"

definition dict_del :: "('k \<times> 'v) list \<Rightarrow> 'k \<Rightarrow> py_error + ('k \<times> 'v) list" where
  "dict_del d k = (if has_key d k then Inr (AList.delete k d) else Inl KeyError)"

text \<open>The slice \<open>xs[i:]\<close>: a negative start counts from the end and is clipped at 0.\<close>

definition slice_from :: "'a list \<Rightarrow> int \<Rightarrow> 'a list" where
  "slice_from xs i =
     (if i < 0 then drop (nat (max 0 (int (length xs) + i))) xs else drop (nat i) xs)"

section \<open>performance_cache.py\<close>

record 'v PerformanceCache =
  cache :: "(string \<times> 'v) list"
  access_times :: "(string \<times> real) list"
  max_size :: int
  ttl :: real
  metrics :: "string \<Rightarrow> (real \<times> real) list"

definition PerformanceCache_init :: "int \<Rightarrow> real \<Rightarrow> 'v PerformanceCache" where
  "PerformanceCache_init max_size0 ttl0 =
     \<lparr>cache = [], access_times = [], max_size = max_size0, ttl = ttl0, metrics = (\<lambda>_. [])\<rparr>"

text \<open>
  \<open>min(self.access_times.keys(), key=lambda k: self.access_times[k])\<close>: the first key, in
  dictionary order, whose time is the least; ValueError on an empty dictionary.
\<close>

fun oldest_from :: "string \<times> real \<Rightarrow> (string \<times> real) list \<Rightarrow> string \<times> real" where
  "oldest_from b [] = b"
| "oldest_from b (e # es) = oldest_from (if snd e < snd b then e else b) es"

definition oldest_key :: "(string \<times> real) list \<Rightarrow> py_error + string" where
  "oldest_key ats = (case ats of [] \<Rightarrow> Inl ValueError | e # es \<Rightarrow> Inr (fst (oldest_from e es)))"

text \<open>
  \<open>PerformanceCache.get\<close>; the last argument is the reading of \<open>time.time()\<close>, which the
  code makes only for a present key. A hit returns the stored value; an entry as old as
  \<open>ttl\<close> or older is deleted from both dictionaries and the answer is None.
\<close>

definition get_value ::
  "'v PerformanceCache \<Rightarrow> string \<Rightarrow> real \<Rightarrow> py_error + ('v option \<times> 'v PerformanceCache)" where
  "get_value c key now =
     (case map_of (cache c) key of
        None \<Rightarrow> Inr (None, c)
      | Some v \<Rightarrow>
          (case map_of (access_times c) key of
             None \<Rightarrow> Inl KeyError
           | Some t \<Rightarrow>
               if now - t < ttl c then Inr (Some v, c)
               else try_bind (dict_del (cache c) key) (\<lambda>cache1.
                    try_bind (dict_del (access_times c) key) (\<lambda>times1.
                    Inr (None, c\<lparr>cache := cache1, access_times := times1\<rparr>)))))"

text \<open>\<open>PerformanceCache.set\<close>; the last argument is the reading of \<open>time.time()\<close>.\<close>

definition set_value ::
  "'v PerformanceCache \<Rightarrow> string \<Rightarrow> 'v \<Rightarrow> real \<Rightarrow> py_error + 'v PerformanceCache" where
  "set_value c key v now =
     try_bind
       (if int (length (cache c)) \<ge> max_size c then
          try_bind (oldest_key (access_times c)) (\<lambda>oldest.
          try_bind (dict_del (cache c) oldest) (\<lambda>cache1.
          try_bind (dict_del (access_times c) oldest) (\<lambda>times1.
          Inr (c\<lparr>cache := cache1, access_times := times1\<rparr>))))
        else Inr c)
       (\<lambda>c1. Inr (c1\<lparr>cache := AList.update key v (cache c1),
                        access_times := AList.update key now (access_times c1)\<rparr>))"

text \<open>A sequence of \<open>set\<close> calls \<open>(key, value, time)\<close>; the first exception ends it.\<close>

fun set_values ::
  "'v PerformanceCache \<Rightarrow> (string \<times> 'v \<times> real) list \<Rightarrow> py_error + 'v PerformanceCache" where
  "set_values c [] = Inr c"
| "set_values c ((key, v, now) # ops) = try_bind (set_value c key v now) (\<lambda>c1. set_values c1 ops)"

definition add_metric ::
  "'v PerformanceCache \<Rightarrow> string \<Rightarrow> real \<Rightarrow> real \<Rightarrow> 'v PerformanceCache" where
  "add_metric c endpoint duration now =
     (let q = metrics c endpoint @ [(now, duration)];
          q1 = (if length q > 100 then tl q else q)
      in c\<lparr>metrics := (metrics c)(endpoint := q1)\<rparr>)"

section \<open>ml_detection.py: detect_ddos\<close>

text \<open>
  The detection engine, with the process-wide state its decorated method uses: the clock
  (the \<open>n\<close>-th reading of \<open>time.time()\<close> is \<open>ml_clock n\<close>) and the global
  \<open>performance_cache\<close>. The inference of lines 86 to 91 (pandas preprocessing, the float32
  conversion, the scaler, the forest and \<open>float(max(proba))\<close>) is opaque numerics: \<open>infer\<close>
  returns the confidence and the first predicted label, or raises. An exception is given
  by its text \<open>str(e)\<close>, the only thing the handler reads. \<open>cache_key\<close> is the key that the
  decorator \<open>cache_result\<close> builds from the hash of the printed arguments.
\<close>

record 'f MLDetectionEngine =
  infer :: "'f \<Rightarrow> string + (real \<times> int)"
  cache_key :: "'f \<Rightarrow> string"
  ml_clock :: "nat \<Rightarrow> real"
  ml_clock_reads :: nat
  ml_cache :: "detection_result PerformanceCache"

definition ml_time :: "'f MLDetectionEngine \<Rightarrow> real \<times> 'f MLDetectionEngine" where
  "ml_time s = (ml_clock s (ml_clock_reads s), s\<lparr>ml_clock_reads := Suc (ml_clock_reads s)\<rparr>)"

text \<open>
  The undecorated body of \<open>detect_ddos\<close>: the \<open>try\<close> and its \<open>except Exception\<close>. The last
  argument reads \<open>datetime.now().isoformat()\<close>.
\<close>

definition detect_ddos_body :: "'f MLDetectionEngine \<Rightarrow> 'f \<Rightarrow> string \<Rightarrow> detection_result" where
  "detect_ddos_body eng flow_features now_iso =
     (case infer eng flow_features of
        Inr (conf, pred) \<Rightarrow>
          \<lparr>prediction = Some (if pred = 1 then ''ddos'' else ''normal''),
           confidence = Some (round4 conf),
           threat_level = Some (if conf > 0.85 then ''HIGH''
                                else if conf > 0.6 then ''MEDIUM'' else ''LOW''),
           produced_at = Some now_iso,
           model_version = Some ''3.0.0'',
           error = None\<rparr>
      | Inl msg \<Rightarrow>
          \<lparr>prediction = Some ''unknown'', confidence = Some 0.0,
           threat_level = Some ''UNKNOWN'', produced_at = None,
           model_version = None, error = Some msg\<rparr>)"

text \<open>\<open>performance_cache.get(cache_key)\<close> on the engine's state: the clock is read for a present key.\<close>

definition cache_lookup ::
  "'f MLDetectionEngine \<Rightarrow> string
     \<Rightarrow> (py_error + detection_result option) \<times> 'f MLDetectionEngine" where
  "cache_lookup s key =
     (if has_key (cache (ml_cache s)) key then
        (let (now, s1) = ml_time s
         in case get_value (ml_cache s1) key now of
              Inl e \<Rightarrow> (Inl e, s1)
            | Inr (found, c1) \<Rightarrow> (Inr found, s1\<lparr>ml_cache := c1\<rparr>))
      else (Inr None, s))"

text \<open>
  \<open>performance_cache.set(cache_key, result)\<close> on the engine's state: the clock is read by
  the last statement of \<open>set\<close>, so not when the eviction raised.
\<close>

definition cache_store ::
  "'f MLDetectionEngine \<Rightarrow> string \<Rightarrow> detection_result
     \<Rightarrow> (py_error + unit) \<times> 'f MLDetectionEngine" where
  "cache_store s key result =
     (case set_value (ml_cache s) key result (ml_clock s (ml_clock_reads s)) of
        Inl e \<Rightarrow> (Inl e, s)
      | Inr c1 \<Rightarrow> (Inr (), s\<lparr>ml_cache := c1, ml_clock_reads := Suc (ml_clock_reads s)\<rparr>))"

text \<open>
  The wrapper of \<open>cache_result\<close> around the body: a cached result that is not None is
  returned at once; otherwise the body runs, its result is stored and its duration
  recorded. The decorator's own \<open>ttl\<close> argument is not used by the code.
\<close>

definition detect_ddos_cached ::
  "'f MLDetectionEngine \<Rightarrow> 'f \<Rightarrow> string
     \<Rightarrow> (py_error + detection_result) \<times> 'f MLDetectionEngine" where
  "detect_ddos_cached s flow_features now_iso =
     (let key = cache_key s flow_features;
          (looked, s1) = cache_lookup s key
      in case looked of
           Inl e \<Rightarrow> (Inl e, s1)
         | Inr (Some cached_result) \<Rightarrow> (Inr cached_result, s1)
         | Inr None \<Rightarrow>
             (let (start_time, s2) = ml_time s1;
                  result = detect_ddos_body s2 flow_features now_iso;
                  (end_time, s3) = ml_time s2;
                  duration = (end_time - start_time) * 1000;
                  (stored, s4) = cache_store s3 key result
              in case stored of
                   Inl e \<Rightarrow> (Inl e, s4)
                 | Inr _ \<Rightarrow>
                     (let (now, s5) = ml_time s4
                      in (Inr result,
                          s5\<lparr>ml_cache := add_metric (ml_cache s5) ''detect_ddos'' duration now\<rparr>))))"

text \<open>
  The decorated method: \<open>performance_monitor\<close> around the wrapper of \<open>cache_result\<close>. It
  times the call and records the duration, under \<open>detect_ddos_error\<close> when the call raised,
  and raises again; its printing is not modelled.
\<close>

definition detect_ddos ::
  "'f MLDetectionEngine \<Rightarrow> 'f \<Rightarrow> string
     \<Rightarrow> (py_error + detection_result) \<times> 'f MLDetectionEngine" where
  "detect_ddos s flow_features now_iso =
     (let (start_time, s1) = ml_time s;
          (result, s2) = detect_ddos_cached s1 flow_features now_iso;
          (end_time, s3) = ml_time s2;
          duration = (end_time - start_time) * 1000;
          (now, s4) = ml_time s3;
          endpoint = (case result of Inr _ \<Rightarrow> ''detect_ddos'' | Inl _ \<Rightarrow> ''detect_ddos_error'')
      in (result, s4\<lparr>ml_cache := add_metric (ml_cache s4) endpoint duration now\<rparr>))"

section \<open>sdn_controller.py\<close>

text \<open>
  The controller is the network: \<open>block_ip\<close> and \<open>unblock_ip\<close> post a request and return
  True exactly when the answer has status 200 or 201; an exception or a timeout gives
  False. \<open>respond\<close> is that answer, which may depend on every request made before;
  \<open>requests\<close> is the log of the requests made.
\<close>

datatype sdn_call = Block string | Unblock string

record SDNController =
  respond :: "sdn_call list \<Rightarrow> sdn_call \<Rightarrow> bool"
  requests :: "sdn_call list"

definition sdn_block_ip :: "SDNController \<Rightarrow> string \<Rightarrow> bool \<times> SDNController" where
  "sdn_block_ip c ip = (respond c (requests c) (Block ip), c\<lparr>requests := requests c @ [Block ip]\<rparr>)"

definition sdn_unblock_ip :: "SDNController \<Rightarrow> string \<Rightarrow> bool \<times> SDNController" where
  "sdn_unblock_ip c ip =
     (respond c (requests c) (Unblock ip), c\<lparr>requests := requests c @ [Unblock ip]\<rparr>)"

section \<open>mitigation_engine.py\<close>

text \<open>The values of \<open>blocked_ips\<close> and the entries of \<open>mitigation_history\<close>.\<close>

record block_record =
  blk_timestamp :: real
  blk_confidence :: real
  packets_blocked :: int
  reason :: string
  last_seen :: real

record mitigation_event =
  ev_timestamp :: real
  ev_ip :: string
  ev_confidence :: real
  action :: string
  details :: "(string \<times> string) list"

record engine_config =
  default_switch_id :: int
  ddos_threshold :: real
  block_duration :: real
  max_history :: int
  check_interval :: real

text \<open>
  The engine object, with the process-wide state its methods use: the clock (the
  \<open>n\<close>-th reading of \<open>time.time()\<close> or \<open>datetime.now()\<close> is \<open>clock n\<close>) and the global
  \<open>performance_cache\<close> of the \<open>performance_monitor\<close> decorator.
\<close>

record MitigationEngine =
  sdn_controller :: SDNController
  blocked_ips :: "(string \<times> block_record) list"
  mitigation_history :: "mitigation_event list"
  config :: engine_config
  clock :: "nat \<Rightarrow> real"
  clock_reads :: nat
  performance_cache :: "detection_result PerformanceCache"

definition default_config :: engine_config where
  "default_config =
     \<lparr>default_switch_id = 1, ddos_threshold = 0.5, block_duration = 3600,
      max_history = 1000, check_interval = 60\<rparr>"

definition MitigationEngine_init ::
  "SDNController \<Rightarrow> (nat \<Rightarrow> real) \<Rightarrow> nat \<Rightarrow> detection_result PerformanceCache \<Rightarrow> MitigationEngine" where
  "MitigationEngine_init ctl clk n pc =
     \<lparr>sdn_controller = ctl, blocked_ips = [], mitigation_history = [],
      config = default_config, clock = clk, clock_reads = n, performance_cache = pc\<rparr>"

definition time_time :: "MitigationEngine \<Rightarrow> real \<times> MitigationEngine" where
  "time_time s = (clock s (clock_reads s), s\<lparr>clock_reads := Suc (clock_reads s)\<rparr>)"

text \<open>
  The outcomes of \<open>execute_mitigation\<close>, one constructor for each returned dictionary:
  \<open>Already_blocked ip since packets_blocked\<close>, \<open>Blocked ip confidence timestamp\<close>,
  \<open>Normal ip confidence\<close>. Time stamps stand for their ISO rendering.
\<close>

datatype mitigation_result =
    Error_result string
  | Already_blocked string real int
  | Blocked string real real
  | Block_failed string
  | Normal string real

fun status :: "mitigation_result \<Rightarrow> string" where
  "status (Error_result _) = ''error''"
| "status (Already_blocked _ _ _) = ''already_blocked''"
| "status (Blocked _ _ _) = ''blocked''"
| "status (Block_failed _) = ''block_failed''"
| "status (Normal _ _) = ''normal''"

fun mitigation_applied :: "mitigation_result \<Rightarrow> bool" where
  "mitigation_applied (Blocked _ _ _) = True"
| "mitigation_applied _ = False"

text \<open>\<open>str.lower\<close> on the ASCII letters.\<close>

definition lower_char :: "char \<Rightarrow> char" where
  "lower_char c =
     (let n = (of_char c :: nat) in if 65 \<le> n \<and> n \<le> 90 then char_of (n + 32) else c)"

definition lower :: "string \<Rightarrow> string" where
  "lower str = map lower_char str"

definition is_ip_blocked :: "MitigationEngine \<Rightarrow> string \<Rightarrow> bool \<times> MitigationEngine" where
  "is_ip_blocked s ip =
     (if has_key (blocked_ips s) ip then
        (let (now, s1) = time_time s;
             s2 = s1\<lparr>blocked_ips :=
                       AList.map_entry ip (\<lambda>d. d\<lparr>last_seen := now\<rparr>) (blocked_ips s1)\<rparr>;
             s3 = s2\<lparr>blocked_ips :=
                       AList.map_entry ip (\<lambda>d. d\<lparr>packets_blocked := packets_blocked d + 1\<rparr>)
                         (blocked_ips s2)\<rparr>
         in (True, s3))
      else (False, s))"

definition block_ip ::
  "MitigationEngine \<Rightarrow> string \<Rightarrow> string \<Rightarrow> real \<Rightarrow> bool \<times> MitigationEngine" where
  "block_ip s ip why conf =
     (if ip = [] \<or> ip \<in> {''0.0.0.0'', ''unknown''} then (False, s)
      else
        (let (success, ctl) = sdn_block_ip (sdn_controller s) ip;
             s1 = s\<lparr>sdn_controller := ctl\<rparr>
         in if success then
              (let (t1, s2) = time_time s1;
                   (t2, s3) = time_time s2
               in (True, s3\<lparr>blocked_ips :=
                               AList.update ip
                                 \<lparr>blk_timestamp = t1, blk_confidence = conf, packets_blocked = 0,
                                  reason = why, last_seen = t2\<rparr>
                                 (blocked_ips s3)\<rparr>))
            else (False, s1)))"

definition unblock_ip :: "MitigationEngine \<Rightarrow> string \<Rightarrow> bool \<times> MitigationEngine" where
  "unblock_ip s ip =
     (if \<not> has_key (blocked_ips s) ip then (False, s)
      else
        (let (success, ctl) = sdn_unblock_ip (sdn_controller s) ip;
             s1 = s\<lparr>sdn_controller := ctl\<rparr>
         in if success then (True, s1\<lparr>blocked_ips := AList.delete ip (blocked_ips s1)\<rparr>)
            else (False, s1)))"

text \<open>The undecorated body of \<open>execute_mitigation\<close>.\<close>

definition execute_mitigation_body ::
  "detection_result \<Rightarrow> (string \<times> string) list \<Rightarrow> MitigationEngine
     \<Rightarrow> (py_error + mitigation_result) \<times> MitigationEngine" where
  "execute_mitigation_body detection flow_info s =
     (let src_ip = (case map_of flow_info ''src_ip'' of Some a \<Rightarrow> a | None \<Rightarrow> ''unknown'')
      in if src_ip \<in> {''unknown'', ''0.0.0.0''} then (Inr (Error_result ''Invalid IP''), s)
         else
           (let (already, s1) = is_ip_blocked s src_ip
            in if already then
                 (case map_of (blocked_ips s1) src_ip of
                    None \<Rightarrow> (Inl KeyError, s1)
                  | Some d \<Rightarrow>
                      (Inr (Already_blocked src_ip (blk_timestamp d) (packets_blocked d)), s1))
               else
                 (let is_ddos =
                        (lower (case prediction detection of Some p \<Rightarrow> p | None \<Rightarrow> [])
                           = ''ddos'');
                      conf = (case confidence detection of Some c \<Rightarrow> c | None \<Rightarrow> 0.0)
                  in if is_ddos \<and> conf \<ge> ddos_threshold (config s1) then
                       (let (ok, s2) = block_ip s1 src_ip ''DDoS detected'' conf
                        in if ok then
                             (let (t, s3) = time_time s2;
                                  s4 = s3\<lparr>mitigation_history :=
                                            mitigation_history s3 @
                                              [\<lparr>ev_timestamp = t, ev_ip = src_ip,
                                                ev_confidence = conf, action = ''BLOCKED'',
                                                details = flow_info\<rparr>]\<rparr>;
                                  (now, s5) = time_time s4
                              in (Inr (Blocked src_ip conf now), s5))
                           else (Inr (Block_failed src_ip), s2))
                     else (Inr (Normal src_ip conf), s1))))"

text \<open>
  The decorator \<open>performance_monitor\<close>: it times the call, records the duration in the
  global metrics (under \<open>name_error\<close> when the call raised, and raises again) and
  prints, which is not modelled.
\<close>

definition performance_monitor ::
  "string \<Rightarrow> (MitigationEngine \<Rightarrow> (py_error + 'r) \<times> MitigationEngine)
     \<Rightarrow> MitigationEngine \<Rightarrow> (py_error + 'r) \<times> MitigationEngine" where
  "performance_monitor func_name func s =
     (let (start_time, s1) = time_time s;
          (result, s2) = func s1;
          (end_time, s3) = time_time s2;
          duration = (end_time - start_time) * 1000;
          (now, s4) = time_time s3;
          endpoint = (case result of Inr _ \<Rightarrow> func_name | Inl _ \<Rightarrow> func_name @ ''_error'')
      in (result,
          s4\<lparr>performance_cache := add_metric (performance_cache s4) endpoint duration now\<rparr>))"

definition execute_mitigation ::
  "MitigationEngine \<Rightarrow> detection_result \<Rightarrow> (string \<times> string) list
     \<Rightarrow> (py_error + mitigation_result) \<times> MitigationEngine" where
  "execute_mitigation s detection flow_info =
     performance_monitor ''execute_mitigation'' (execute_mitigation_body detection flow_info) s"

text \<open>The list comprehension and the \<open>for\<close> loop of \<open>_cleanup_expired_blocks\<close>.\<close>

definition expired_ips :: "MitigationEngine \<Rightarrow> real \<Rightarrow> string list" where
  "expired_ips s now =
     map fst (filter (\<lambda>(ip, d). now - blk_timestamp d > block_duration (config s))
                     (blocked_ips s))"

fun unblock_all :: "MitigationEngine \<Rightarrow> string list \<Rightarrow> MitigationEngine" where
  "unblock_all s [] = s"
| "unblock_all s (ip # ips) = unblock_all (snd (unblock_ip s ip)) ips"

definition cleanup_expired_blocks :: "MitigationEngine \<Rightarrow> MitigationEngine" where
  "cleanup_expired_blocks s =
     (let (now, s1) = time_time s;
          expired = expired_ips s1 now;
          s2 = unblock_all s1 expired
      in if int (length (mitigation_history s2)) > max_history (config s2)
         then s2\<lparr>mitigation_history :=
                   slice_from (mitigation_history s2) (- max_history (config s2))\<rparr>
         else s2)"

definition get_mitigation_history :: "MitigationEngine \<Rightarrow> int \<Rightarrow> mitigation_event list" where
  "get_mitigation_history s limit = slice_from (mitigation_history s) (- limit)"

section \<open>Constructors and concrete inputs\<close>


text \<open>A model, and an inference pipeline, whose every call raises.\<close>

fun raise_predict :: "real list list \<Rightarrow> py_error + int list" where
  "raise_predict X = Inl (Raised ''model failure'')"

fun raise_predict_proba :: "real list list \<Rightarrow> py_error + real list list" where
  "raise_predict_proba X = Inl (Raised ''model failure'')"

definition failing_model :: sk_model where
  "failing_model =
     \<lparr>n_features_in = 9, predict = raise_predict, predict_proba = raise_predict_proba\<rparr>"

fun raise_infer :: "unit \<Rightarrow> string + (real \<times> int)" where
  "raise_infer f = Inl ''model failure''"

fun unit_key :: "unit \<Rightarrow> string" where
  "unit_key f = ''detect_ddos:0''"

fun ml_tick :: "nat \<Rightarrow> real" where
  "ml_tick n = real n"

definition failing_engine :: "unit MLDetectionEngine" where
  "failing_engine =
     \<lparr>infer = raise_infer, cache_key = unit_key, ml_clock = ml_tick, ml_clock_reads = 0,
      ml_cache = PerformanceCache_init 1000 30\<rparr>"

text \<open>
  The two dictionaries of the cache hold the same keys in the same order, without
  repetition, and no more than \<open>max_size\<close> of them.
\<close>

definition cache_inv :: "'v PerformanceCache \<Rightarrow> bool" where
  "cache_inv c = (map fst (cache c) = map fst (access_times c) \<and>
                  distinct (map fst (cache c)) \<and>
                  int (length (cache c)) \<le> max_size c)"

text \<open>The cache holds, for the key, a value that has not expired at the given time.\<close>

definition cache_fresh :: "'v PerformanceCache \<Rightarrow> string \<Rightarrow> real \<Rightarrow> bool" where
  "cache_fresh c key now =
     (case map_of (access_times c) key of
        None \<Rightarrow> False
      | Some t \<Rightarrow> has_key (cache c) key \<and> now - t < ttl c)"

text \<open>
  A controller that accepts every request and one that refuses every request, a clock
  whose \<open>n\<close>-th reading is \<open>n\<close>, and engines, detection results and flows built from them.
\<close>

fun always_ok :: "sdn_call list \<Rightarrow> sdn_call \<Rightarrow> bool" where
  "always_ok made call = True"

fun always_fail :: "sdn_call list \<Rightarrow> sdn_call \<Rightarrow> bool" where
  "always_fail made call = False"

fun tick :: "nat \<Rightarrow> real" where
  "tick n = real n"

definition engine0 :: MitigationEngine where
  "engine0 = MitigationEngine_init \<lparr>respond = always_ok, requests = []\<rparr> tick 0
               (PerformanceCache_init 1000 30)"

definition engine_down :: MitigationEngine where
  "engine_down = MitigationEngine_init \<lparr>respond = always_fail, requests = []\<rparr> tick 0
               (PerformanceCache_init 1000 30)"

definition ddos_detection :: detection_result where
  "ddos_detection =
     \<lparr>prediction = Some ''ddos'', confidence = Some 0.9, threat_level = Some ''HIGH'',
      produced_at = Some ''2025-01-01T00:00:00'', model_version = Some ''3.0.0'', error = None\<rparr>"

definition attacker_flow :: "(string \<times> string) list" where
  "attacker_flow = [(''src_ip'', ''10.0.0.5'')]"

definition old_event :: mitigation_event where
  "old_event = \<lparr>ev_timestamp = 0, ev_ip = ''10.0.0.1'', ev_confidence = 0.9,
                 action = ''BLOCKED'', details = []\<rparr>"

definition full_engine :: MitigationEngine where
  "full_engine = engine0\<lparr>mitigation_history := replicate 1000 old_event\<rparr>"

definition expired_engine :: MitigationEngine where
  "expired_engine =
     engine0\<lparr>blocked_ips :=
               [(''10.0.0.5'', \<lparr>blk_timestamp = 0, blk_confidence = 0.9, packets_blocked = 0,
                                reason = ''DDoS detected'', last_seen = 0\<rparr>)],
             clock_reads := 4000\<rparr>"

section \<open>Slice classification\<close>

text \<open>
  Claim C7. For every packet size, protocol and rate exactly one of the three slices is
  returned. A rate above 200 or the protocol ICMP gives URLLC with priority 1 and
  bandwidth weight 0.30; otherwise a packet size below 200 with a rate below 20 gives mMTC
  with priority 3 and weight 0.20; otherwise the result is eMBB with priority 2 and weight
  0.50. URLLC therefore wins over mMTC where both conditions hold numerically, as for
  packet size 50 and rate 250.
\<close>

theorem slice_classification:
  "classify_slice packet_size protocol rate \<in> {''URLLC'', ''mMTC'', ''eMBB''} \<and>
   (rate > 200 \<or> protocol = ''ICMP'' \<longrightarrow>
      classify_slice packet_size protocol rate = ''URLLC'' \<and>
      (\<exists>p. get_network_slice packet_size protocol rate now_iso = Inr p \<and>
           slice p = ''URLLC'' \<and> priority p = 1 \<and> bandwidth_weight p = 0.30)) \<and>
   (\<not> (rate > 200 \<or> protocol = ''ICMP'') \<and> packet_size < 200 \<and> rate < 20 \<longrightarrow>
      classify_slice packet_size protocol rate = ''mMTC'' \<and>
      (\<exists>p. get_network_slice packet_size protocol rate now_iso = Inr p \<and>
           slice p = ''mMTC'' \<and> priority p = 3 \<and> bandwidth_weight p = 0.20)) \<and>
   (\<not> (rate > 200 \<or> protocol = ''ICMP'') \<and> \<not> (packet_size < 200 \<and> rate < 20) \<longrightarrow>
      classify_slice packet_size protocol rate = ''eMBB'' \<and>
      (\<exists>p. get_network_slice packet_size protocol rate now_iso = Inr p \<and>
           slice p = ''eMBB'' \<and> priority p = 2 \<and> bandwidth_weight p = 0.50)) \<and>
   classify_slice 50 protocol 250 = ''URLLC''"
  by (simp add: classify_slice_def get_network_slice_def apply_slice_policy_def
        SLICE_DEFINITIONS_def)

theorem slice_classification_witness:
  "classify_slice 50 ''TCP'' 250 = ''URLLC'' \<and>
   (\<exists>p. get_network_slice 50 ''TCP'' 250 ''2025-01-01T00:00:00'' = Inr p \<and>
        slice p = ''URLLC'' \<and> priority p = 1 \<and> bandwidth_weight p = 0.30) \<and>
   classify_slice 64 ''ICMP'' 5 = ''URLLC'' \<and>
   classify_slice 100 ''UDP'' 10 = ''mMTC'' \<and>
   (\<exists>p. get_network_slice 100 ''UDP'' 10 ''2025-01-01T00:00:00'' = Inr p \<and>
        slice p = ''mMTC'' \<and> priority p = 3 \<and> bandwidth_weight p = 0.20) \<and>
   classify_slice 1500 ''TCP'' 100 = ''eMBB'' \<and>
   (\<exists>p. get_network_slice 1500 ''TCP'' 100 ''2025-01-01T00:00:00'' = Inr p \<and>
        slice p = ''eMBB'' \<and> priority p = 2 \<and> bandwidth_weight p = 0.50)"
  using slice_classification [of 50 "''TCP''" 250 "''2025-01-01T00:00:00''"]
        slice_classification [of 64 "''ICMP''" 5 "''2025-01-01T00:00:00''"]
        slice_classification [of 100 "''UDP''" 10 "''2025-01-01T00:00:00''"]
        slice_classification [of 1500 "''TCP''" 100 "''2025-01-01T00:00:00''"]
  by simp

section \<open>The detector without a model\<close>

text \<open>
  Claim C1. With no model configured, \<open>is_ddos_attack\<close> answers by the rate alone: it is
  true exactly when the rate is above 50, for every packet size and every rate, and so at
  the rates 0, 50, 50.0001, 51 and 1000.
\<close>

theorem fallback_rule:
  "is_ddos_attack None pkt_size rate = (rate > 50) \<and>
   is_ddos_attack None pkt_size 0 = False \<and>
   is_ddos_attack None pkt_size 50 = False \<and>
   is_ddos_attack None pkt_size 50.0001 = True \<and>
   is_ddos_attack None pkt_size 51 = True \<and>
   is_ddos_attack None pkt_size 1000 = True"
  by (simp add: is_ddos_attack_def)

section \<open>Rate tracker\<close>













section \<open>Cache bound\<close>

lemma oldest_from_mem: "oldest_from b es \<in> set (b # es)"
  by (induction es arbitrary: b) auto

lemma oldest_from_le_start: "snd (oldest_from b es) \<le> snd b"
proof (induction es arbitrary: b)
  case Nil
  show ?case by simp
next
  case (Cons e es)
  have "snd (oldest_from (if snd e < snd b then e else b) es)
          \<le> snd (if snd e < snd b then e else b)"
    by (rule Cons.IH)
  then show ?case by (simp split: if_splits)
qed

lemma oldest_from_least: "x \<in> set (b # es) \<Longrightarrow> snd (oldest_from b es) \<le> snd x"
proof (induction es arbitrary: b)
  case Nil
  then show ?case by simp
next
  case (Cons e es)
  let ?b = "if snd e < snd b then e else b"
  have le: "snd (oldest_from ?b es) \<le> snd ?b" by (rule oldest_from_le_start)
  show ?case
  proof (cases "x \<in> set es")
    case True
    then show ?thesis using Cons.IH [of ?b] by simp
  next
    case False
    then have "x = b \<or> x = e" using Cons.prems by auto
    then show ?thesis using le by (auto split: if_splits)
  qed
qed

lemma length_delete_distinct:
  assumes "distinct (map fst al)" and "k \<in> set (map fst al)"
  shows "length (AList.delete k al) = length al - 1"
proof -
  have "length (AList.delete k al) = length (removeAll k (map fst al))"
    by (metis delete_keys length_map)
  also have "\<dots> = length (remove1 k (map fst al))"
    using assms(1) by (simp add: distinct_remove1_removeAll)
  also have "\<dots> = length al - 1"
    using assms(2) by (simp add: length_remove1)
  finally show ?thesis .
qed

lemma length_update_le: "length (AList.update k v al) \<le> length al + 1"
  by (induction al) auto

lemma update_new: "k \<notin> set (map fst al) \<Longrightarrow> AList.update k v al = al @ [(k, v)]"
  by (induction al) auto

lemma set_value_ok:
  assumes "cache_inv c" and "1 \<le> max_size c"
  shows "\<exists>c1. set_value c key v now = Inr c1 \<and> cache_inv c1 \<and> max_size c1 = max_size c"
proof (cases "int (length (cache c)) \<ge> max_size c")
  case False
  then show ?thesis using assms
    using length_update_le [of key v "cache c"]
    by (auto simp: set_value_def try_bind_def cache_inv_def update_keys distinct_update)
next
  case True
  have keys: "map fst (cache c) = map fst (access_times c)" and d: "distinct (map fst (cache c))"
    and len: "int (length (cache c)) = max_size c"
    using assms True by (auto simp: cache_inv_def)
  have "length (access_times c) = length (cache c)" using keys by (metis length_map)
  then obtain e es where ats: "access_times c = e # es" using len assms(2) by (cases "access_times c") auto
  define k0 where "k0 = fst (oldest_from e es)"
  have k0: "k0 \<in> set (map fst (access_times c))"
    using oldest_from_mem [of e es] ats by (auto simp: k0_def)
  have ok: "oldest_key (access_times c) = Inr k0" by (simp add: oldest_key_def ats k0_def)
  define c0 where "c0 = c\<lparr>cache := AList.delete k0 (cache c), access_times := AList.delete k0 (access_times c)\<rparr>"
  have sv: "set_value c key v now =
          Inr (c0\<lparr>cache := AList.update key v (cache c0),
                  access_times := AList.update key now (access_times c0)\<rparr>)"
    using True ok k0 keys by (simp add: set_value_def try_bind_def dict_del_def has_key_def c0_def)
  have l0: "length (cache c0) = length (cache c) - 1"
    using length_delete_distinct [OF d] k0 keys by (simp add: c0_def)
  have k0': "map fst (cache c0) = map fst (access_times c0)"
    using keys by (simp add: c0_def delete_keys)
  have d0: "distinct (map fst (cache c0))" using d by (simp add: c0_def distinct_delete)
  have "length (AList.update key v (cache c0)) \<le> length (cache c0) + 1"
    by (rule length_update_le)
  then have "int (length (AList.update key v (cache c0))) \<le> max_size c"
    using l0 len assms(2) by linarith
  then show ?thesis using sv k0' d0
    by (simp add: cache_inv_def update_keys distinct_update c0_def)
qed

lemma set_values_ok:
  "cache_inv c \<Longrightarrow> 1 \<le> max_size c \<Longrightarrow>
     \<exists>c1. set_values c ops = Inr c1 \<and> cache_inv c1 \<and> max_size c1 = max_size c"
proof (induction ops arbitrary: c)
  case Nil
  then show ?case by simp
next
  case (Cons op ops)
  obtain key v now where op: "op = (key, v, now)" by (cases op)
  obtain c1 where c1: "set_value c key v now = Inr c1" "cache_inv c1" "max_size c1 = max_size c"
    using set_value_ok [OF Cons.prems] by blast
  then show ?case using Cons.IH [of c1] Cons.prems(2) op by (simp add: try_bind_def)
qed

lemma set_values_append:
  "set_values c (ops @ ops') = try_bind (set_values c ops) (\<lambda>c1. set_values c1 ops')"
  by (induction c ops rule: set_values.induct) (auto simp: try_bind_def split: sum.splits)

lemma set_values_fill:
  "map fst (cache c) = map fst (access_times c) \<Longrightarrow>
   distinct (map fst (cache c) @ map fst ops) \<Longrightarrow>
   int (length (cache c) + length ops) \<le> max_size c \<Longrightarrow>
   set_values c ops =
     Inr (c\<lparr>cache := cache c @ map (\<lambda>(k, v, t). (k, v)) ops,
            access_times := access_times c @ map (\<lambda>(k, v, t). (k, t)) ops\<rparr>)"
proof (induction c ops rule: set_values.induct)
  case (1 c)
  then show ?case by simp
next
  case (2 c key v now ops)
  have nk: "key \<notin> set (map fst (cache c))" "key \<notin> set (map fst (access_times c))"
    using 2(2,3) by auto
  have sv: "set_value c key v now =
      Inr (c\<lparr>cache := cache c @ [(key, v)], access_times := access_times c @ [(key, now)]\<rparr>)"
    using nk 2(4) by (simp add: set_value_def try_bind_def update_new)
  show ?case
    using 2 nk by (simp add: sv try_bind_def)
qed

text \<open>
  Claim C8. For a capacity \<open>max_size\<close> of at least 1, every sequence of \<open>set\<close> calls on the
  empty cache succeeds and leaves at most \<open>max_size\<close> entries. Inserting \<open>max_size + 1\<close>
  distinct keys leaves exactly \<open>max_size\<close> entries: one key is evicted by the last
  insertion, its insertion time is the least among the keys present before, and the
  remaining keys are the other old ones followed by the new one.
\<close>

theorem cache_bound:
  assumes "1 \<le> cap"
  shows "(\<exists>c1. set_values (PerformanceCache_init cap ttl0) (ops :: (string \<times> 'v \<times> real) list) = Inr c1 \<and>
               int (length (cache c1)) \<le> cap) \<and>
         (int (length first) = cap \<and> distinct (map fst (first @ [(k, v :: 'v, t)])) \<longrightarrow>
            (\<exists>c1 e te.
               set_values (PerformanceCache_init cap ttl0) (first @ [(k, v, t)]) = Inr c1 \<and>
               int (length (cache c1)) = cap \<and>
               (e, te) \<in> set (map (\<lambda>(k, v, t). (k, t)) first) \<and>
               (\<forall>x\<in>set (map (\<lambda>(k, v, t). (k, t)) first). te \<le> snd x) \<and>
               map fst (cache c1) = removeAll e (map fst first) @ [k] \<and>
               e \<notin> set (map fst (cache c1))))"
proof
  let ?c0 = "PerformanceCache_init cap ttl0 :: 'v PerformanceCache"
  have inv0: "cache_inv ?c0" using assms by (simp add: cache_inv_def PerformanceCache_init_def)
  have m0: "max_size ?c0 = cap" by (simp add: PerformanceCache_init_def)
  show "\<exists>c1. set_values ?c0 ops = Inr c1 \<and> int (length (cache c1)) \<le> cap"
    using set_values_ok [OF inv0, of ops] assms m0 by (auto simp: cache_inv_def)
  show "int (length first) = cap \<and> distinct (map fst (first @ [(k, v, t)])) \<longrightarrow>
            (\<exists>c1 e te.
               set_values ?c0 (first @ [(k, v, t)]) = Inr c1 \<and>
               int (length (cache c1)) = cap \<and>
               (e, te) \<in> set (map (\<lambda>(k, v, t). (k, t)) first) \<and>
               (\<forall>x\<in>set (map (\<lambda>(k, v, t). (k, t)) first). te \<le> snd x) \<and>
               map fst (cache c1) = removeAll e (map fst first) @ [k] \<and>
               e \<notin> set (map fst (cache c1)))"
  proof
    assume h: "int (length first) = cap \<and> distinct (map fst (first @ [(k, v, t)]))"
    let ?kv = "map (\<lambda>(k, v, t). (k, v)) first" and ?kt = "map (\<lambda>(k, v, t). (k, t)) first"
    let ?c1 = "?c0\<lparr>cache := ?kv, access_times := ?kt\<rparr>"
    have keys_kv: "map fst ?kv = map fst first" and keys_kt: "map fst ?kt = map fst first"
      by (simp_all add: case_prod_beta comp_def)
    have d: "distinct (map fst first)" and knew: "k \<notin> set (map fst first)" using h by auto
    have fill: "set_values ?c0 first = Inr ?c1"
      using set_values_fill [of ?c0 first] h by (simp add: PerformanceCache_init_def)
    obtain b es where kt: "?kt = b # es" using h assms by (cases ?kt) auto
    define e where "e = fst (oldest_from b es)"
    define te where "te = snd (oldest_from b es)"
    have mem: "(e, te) \<in> set ?kt" using oldest_from_mem [of b es] kt by (simp add: e_def te_def)
    have least: "\<forall>x\<in>set ?kt. te \<le> snd x" using oldest_from_least [of _ b es] kt by (simp add: te_def)
    have "e \<in> set (map fst ?kt)" using mem by force
    then have ein: "e \<in> set (map fst first)" by (simp only: keys_kt)
    have ok: "oldest_key ?kt = Inr e" by (simp add: oldest_key_def kt e_def)
    have "k \<noteq> e" using ein knew by auto
    let ?c2 = "?c1\<lparr>cache := AList.delete e ?kv @ [(k, v)],
                     access_times := AList.delete e ?kt @ [(k, t)]\<rparr>"
    have dk: "map fst (AList.delete e ?kv) = removeAll e (map fst first)"
      "map fst (AList.delete e ?kt) = removeAll e (map fst first)"
      by (simp_all only: delete_keys keys_kv keys_kt)
    have nk: "k \<notin> set (map fst (AList.delete e ?kv))" "k \<notin> set (map fst (AList.delete e ?kt))"
      using knew by (simp_all only: dk) simp_all
    have len1: "int (length ?kv) = cap" using h by simp
    have hk: "has_key ?kv e" "has_key ?kt e"
      by (simp_all only: has_key_def keys_kv keys_kt ein)
    have un: "AList.update k v (AList.delete e ?kv) = AList.delete e ?kv @ [(k, v)]"
      "AList.update k t (AList.delete e ?kt) = AList.delete e ?kt @ [(k, t)]"
      by (rule update_new [OF nk(1)], rule update_new [OF nk(2)])
    have sv: "set_value ?c1 k v t = Inr ?c2"
      using len1
      by (simp add: set_value_def try_bind_def dict_del_def hk ok un PerformanceCache_init_def)
    have run: "set_values ?c0 (first @ [(k, v, t)]) = Inr ?c2"
      by (simp add: set_values_append fill sv try_bind_def)
    have "length (AList.delete e ?kv) = length ?kv - 1"
      by (rule length_delete_distinct) (simp_all only: keys_kv d ein)
    then have len2: "int (length (cache ?c2)) = cap" using len1 assms by simp
    have keys2: "map fst (cache ?c2) = removeAll e (map fst first) @ [k]"
      using dk(1) by simp
    have "e \<notin> set (removeAll e (map fst first) @ [k])" using \<open>k \<noteq> e\<close> by simp
    then have "e \<notin> set (map fst (cache ?c2))" unfolding keys2 .
    then show "\<exists>c1 e te.
               set_values ?c0 (first @ [(k, v, t)]) = Inr c1 \<and>
               int (length (cache c1)) = cap \<and>
               (e, te) \<in> set (map (\<lambda>(k, v, t). (k, t)) first) \<and>
               (\<forall>x\<in>set (map (\<lambda>(k, v, t). (k, t)) first). te \<le> snd x) \<and>
               map fst (cache c1) = removeAll e (map fst first) @ [k] \<and>
               e \<notin> set (map fst (cache c1))"
      using run len2 mem least keys2 by blast
  qed
qed

theorem cache_bound_witness:
  "(\<exists>c1. set_values (PerformanceCache_init 2 30) [(''a'', 1::nat, 5), (''b'', 2, 3), (''c'', 3, 7)] = Inr c1 \<and>
         int (length (cache c1)) = 2 \<and> map fst (cache c1) = [''a'', ''c''])"
  using cache_bound [of 2 30 "[(''a'', 1::nat, 5), (''b'', 2, 3), (''c'', 3, 7)]"
          "[(''a'', 1::nat, 5), (''b'', 2, 3)]" "''c''" 3 7]
  by (simp add: PerformanceCache_init_def set_value_def try_bind_def oldest_key_def dict_del_def has_key_def)

section \<open>The detector with a failing model\<close>

lemma ml_time_fields:
  "fst (ml_time s) = ml_clock s (ml_clock_reads s)"
  "infer (snd (ml_time s)) = infer s"
  "cache_key (snd (ml_time s)) = cache_key s"
  "ml_cache (snd (ml_time s)) = ml_cache s"
  "ml_clock (snd (ml_time s)) = ml_clock s"
  "ml_clock_reads (snd (ml_time s)) = Suc (ml_clock_reads s)"
  by (simp_all add: ml_time_def)

lemma detect_ddos_body_raises:
  "infer eng flow_features = Inl msg \<Longrightarrow>
   detect_ddos_body eng flow_features now_iso =
     \<lparr>prediction = Some ''unknown'', confidence = Some 0, threat_level = Some ''UNKNOWN'',
      produced_at = None, model_version = None, error = Some msg\<rparr>"
  by (simp add: detect_ddos_body_def)

lemma get_value_expired:
  assumes "cache_inv c" and "\<not> cache_fresh c key now" and "has_key (cache c) key"
  shows "\<exists>c1. get_value c key now = Inr (None, c1) \<and> cache_inv c1 \<and> max_size c1 = max_size c"
proof -
  have keys: "map fst (cache c) = map fst (access_times c)" and d: "distinct (map fst (cache c))"
    and len: "int (length (cache c)) \<le> max_size c"
    using assms(1) by (auto simp: cache_inv_def)
  have hk: "key \<in> set (map fst (cache c))" using assms(3) by (simp add: has_key_def)
  obtain v where v: "map_of (cache c) key = Some v"
    using hk by (metis map_of_eq_None_iff not_Some_eq set_map)
  have "key \<in> set (map fst (access_times c))" using hk keys by simp
  then obtain t where t: "map_of (access_times c) key = Some t"
    by (metis map_of_eq_None_iff not_Some_eq set_map)
  have old: "\<not> now - t < ttl c" using assms(2,3) t by (simp add: cache_fresh_def)
  have hk2: "has_key (access_times c) key" using hk keys by (simp add: has_key_def)
  let ?c1 = "c\<lparr>cache := AList.delete key (cache c), access_times := AList.delete key (access_times c)\<rparr>"
  have g: "get_value c key now = Inr (None, ?c1)"
    using v t old assms(3) hk2 by (simp add: get_value_def try_bind_def dict_del_def)
  have "length (AList.delete key (cache c)) \<le> length (cache c)" by (rule length_delete_le)
  then have "cache_inv ?c1"
    using keys d len by (simp add: cache_inv_def delete_keys distinct_removeAll)
  then show ?thesis using g by simp
qed

lemma cache_lookup_miss:
  assumes "cache_inv (ml_cache s)"
    and "\<not> cache_fresh (ml_cache s) key (ml_clock s (ml_clock_reads s))"
  shows "\<exists>s1. cache_lookup s key = (Inr None, s1) \<and> cache_inv (ml_cache s1) \<and>
              max_size (ml_cache s1) = max_size (ml_cache s) \<and> infer s1 = infer s"
proof (cases "has_key (cache (ml_cache s)) key")
  case False
  then show ?thesis using assms(1) by (simp add: cache_lookup_def)
next
  case True
  obtain c1 where c1: "get_value (ml_cache s) key (ml_clock s (ml_clock_reads s)) = Inr (None, c1)"
    "cache_inv c1" "max_size c1 = max_size (ml_cache s)"
    using get_value_expired [OF assms True] by blast
  show ?thesis using True c1 by (simp add: cache_lookup_def ml_time_def)
qed

lemma cache_store_ok:
  assumes "cache_inv (ml_cache s)" and "1 \<le> max_size (ml_cache s)"
  shows "\<exists>s1. cache_store s key r = (Inr (), s1)"
proof -
  obtain c1 where "set_value (ml_cache s) key r (ml_clock s (ml_clock_reads s)) = Inr c1"
    using set_value_ok [OF assms] by blast
  then show ?thesis by (simp add: cache_store_def)
qed

lemma detect_ddos_cached_miss:
  assumes "cache_inv (ml_cache s)" and "1 \<le> max_size (ml_cache s)"
    and "\<not> cache_fresh (ml_cache s) (cache_key s flow_features) (ml_clock s (ml_clock_reads s))"
  shows "fst (detect_ddos_cached s flow_features now_iso)
           = Inr (detect_ddos_body s flow_features now_iso)"
proof -
  obtain s1 where s1: "cache_lookup s (cache_key s flow_features) = (Inr None, s1)"
    "cache_inv (ml_cache s1)" "max_size (ml_cache s1) = max_size (ml_cache s)" "infer s1 = infer s"
    using cache_lookup_miss [OF assms(1,3)] by blast
  let ?s2 = "snd (ml_time s1)"
  let ?s3 = "snd (ml_time ?s2)"
  let ?r = "detect_ddos_body ?s2 flow_features now_iso"
  have inv3: "cache_inv (ml_cache ?s3)" and m3: "1 \<le> max_size (ml_cache ?s3)"
    using s1(2,3) assms(2) by (simp_all add: ml_time_fields)
  obtain s4 where s4: "cache_store ?s3 (cache_key s flow_features) ?r = (Inr (), s4)"
    using cache_store_ok [OF inv3 m3] by blast
  have body: "?r = detect_ddos_body s flow_features now_iso"
    using s1(4) by (simp add: detect_ddos_body_def ml_time_fields)
  show ?thesis
    using s1(1) s4 body by (simp add: detect_ddos_cached_def Let_def split_def)
qed

text \<open>
  Claim C3 says that a model that raises during classification is answered by the rate
  rule. The code does not: with a model configured, an exception inside the \<open>try\<close> makes
  \<open>is_ddos_attack\<close> return False, here at a rate of 100.
\<close>

theorem model_failure_counterexample:
  "predict failing_model [build_features (Some failing_model) 64 100] = Inl (Raised ''model failure'') \<and>
   is_ddos_attack (Some failing_model) 64 100 \<noteq> ((100::real) > 50)"
  by (simp add: failing_model_def is_ddos_attack_def ml_decision_def try_bind_def)

text \<open>
  Claim C3, amended. When \<open>predict\<close> or \<open>predict_proba\<close> raises, \<open>is_ddos_attack\<close> catches
  the exception and returns False whatever the rate is; the rate rule is used only when no
  model is configured. When the inference of \<open>detect_ddos\<close> raises, on a call that the
  cache does not answer, with a well-formed cache of capacity at least 1, the decorated
  method returns the prediction unknown with confidence 0 and the text of the exception.
  No exception leaves either function.
\<close>

theorem model_failure_is_non_threat:
  "(predict m [build_features (Some m) pkt_size rate] = Inl e \<or>
    predict_proba m [build_features (Some m) pkt_size rate] = Inl e
      \<longrightarrow> is_ddos_attack (Some m) pkt_size rate = False) \<and>
   (infer s flow_features = Inl msg \<and> cache_inv (ml_cache s) \<and> 1 \<le> max_size (ml_cache s) \<and>
    \<not> cache_fresh (ml_cache s) (cache_key s flow_features) (ml_clock s (Suc (ml_clock_reads s)))
      \<longrightarrow> fst (detect_ddos s flow_features now_iso) =
            Inr \<lparr>prediction = Some ''unknown'', confidence = Some 0,
                 threat_level = Some ''UNKNOWN'', produced_at = None, model_version = None,
                 error = Some msg\<rparr>)"
proof (intro conjI impI)
  assume "predict m [build_features (Some m) pkt_size rate] = Inl e \<or>
    predict_proba m [build_features (Some m) pkt_size rate] = Inl e"
  then show "is_ddos_attack (Some m) pkt_size rate = False"
    by (auto simp: is_ddos_attack_def ml_decision_def try_bind_def Let_def split: sum.splits)
next
  assume h: "infer s flow_features = Inl msg \<and> cache_inv (ml_cache s) \<and> 1 \<le> max_size (ml_cache s) \<and>
    \<not> cache_fresh (ml_cache s) (cache_key s flow_features) (ml_clock s (Suc (ml_clock_reads s)))"
  let ?s1 = "snd (ml_time s)"
  have "fst (detect_ddos_cached ?s1 flow_features now_iso)
          = Inr (detect_ddos_body ?s1 flow_features now_iso)"
    using h by (intro detect_ddos_cached_miss) (simp_all add: ml_time_fields)
  moreover have "detect_ddos_body ?s1 flow_features now_iso =
     \<lparr>prediction = Some ''unknown'', confidence = Some 0, threat_level = Some ''UNKNOWN'',
      produced_at = None, model_version = None, error = Some msg\<rparr>"
    using h by (intro detect_ddos_body_raises) (simp add: ml_time_fields)
  ultimately show "fst (detect_ddos s flow_features now_iso) =
            Inr \<lparr>prediction = Some ''unknown'', confidence = Some 0,
                 threat_level = Some ''UNKNOWN'', produced_at = None, model_version = None,
                 error = Some msg\<rparr>"
    by (simp add: detect_ddos_def Let_def split_def)
qed

theorem model_failure_is_non_threat_witness:
  "predict failing_model [build_features (Some failing_model) 64 100] = Inl (Raised ''model failure'') \<and>
   is_ddos_attack (Some failing_model) 64 100 = False \<and>
   infer failing_engine () = Inl ''model failure'' \<and>
   fst (detect_ddos failing_engine () ''2025-01-01T00:00:00'') =
     Inr \<lparr>prediction = Some ''unknown'', confidence = Some 0, threat_level = Some ''UNKNOWN'',
          produced_at = None, model_version = None, error = Some ''model failure''\<rparr>"
  using model_failure_is_non_threat [of failing_model 64 100 "Raised ''model failure''"
          failing_engine "()" "''model failure''" "''2025-01-01T00:00:00''"]
  by (simp add: failing_model_def failing_engine_def cache_inv_def cache_fresh_def
        PerformanceCache_init_def)

section \<open>Mitigation engine\<close>

lemma lower_ddos: "lower ''ddos'' = ''ddos''"
  by code_simp

lemma time_time_fields:
  "fst (time_time s) = clock s (clock_reads s)"
  "blocked_ips (snd (time_time s)) = blocked_ips s"
  "mitigation_history (snd (time_time s)) = mitigation_history s"
  "sdn_controller (snd (time_time s)) = sdn_controller s"
  "config (snd (time_time s)) = config s"
  by (simp_all add: time_time_def)

lemma performance_monitor_fields:
  "fst (performance_monitor n f s) = fst (f (snd (time_time s)))"
  "blocked_ips (snd (performance_monitor n f s)) = blocked_ips (snd (f (snd (time_time s))))"
  "mitigation_history (snd (performance_monitor n f s))
     = mitigation_history (snd (f (snd (time_time s))))"
  "sdn_controller (snd (performance_monitor n f s)) = sdn_controller (snd (f (snd (time_time s))))"
  "config (snd (performance_monitor n f s)) = config (snd (f (snd (time_time s))))"
  by (simp_all add: performance_monitor_def Let_def split_def time_time_def)

lemma body_invalid_or_blocked_free:
  assumes "map_of flow_info ''src_ip'' = Some ip"
    and "ip \<noteq> ''unknown''" and "ip \<noteq> ''0.0.0.0''"
    and "\<not> has_key (blocked_ips s) ip"
    and "prediction d = Some p" and "lower p = ''ddos''"
    and "confidence d = Some c" and "c \<ge> ddos_threshold (config s)"
  shows "execute_mitigation_body d flow_info s =
           (let (ok, s2) = block_ip s ip ''DDoS detected'' c
            in if ok then
                 (let (t, s3) = time_time s2;
                      s4 = s3\<lparr>mitigation_history :=
                                mitigation_history s3 @
                                  [\<lparr>ev_timestamp = t, ev_ip = ip, ev_confidence = c,
                                    action = ''BLOCKED'', details = flow_info\<rparr>]\<rparr>;
                      (now, s5) = time_time s4
                  in (Inr (Blocked ip c now), s5))
               else (Inr (Block_failed ip), s2))"
  using assms by (simp add: execute_mitigation_body_def is_ip_blocked_def Let_def)

lemma block_ip_fails:
  assumes "\<not> respond (sdn_controller s) (requests (sdn_controller s)) (Block ip)"
  shows "fst (block_ip s ip why c) = False"
    and "blocked_ips (snd (block_ip s ip why c)) = blocked_ips s"
    and "mitigation_history (snd (block_ip s ip why c)) = mitigation_history s"
    and "config (snd (block_ip s ip why c)) = config s"
  using assms by (simp_all add: block_ip_def sdn_block_ip_def Let_def)

lemma block_ip_succeeds:
  assumes "respond (sdn_controller s) (requests (sdn_controller s)) (Block ip)"
    and "ip \<noteq> []" and "ip \<noteq> ''unknown''" and "ip \<noteq> ''0.0.0.0''"
  shows "block_ip s ip why c =
           (True, s\<lparr>sdn_controller := (sdn_controller s)\<lparr>requests := requests (sdn_controller s) @ [Block ip]\<rparr>,
                    clock_reads := Suc (Suc (clock_reads s)),
                    blocked_ips := AList.update ip
                       \<lparr>blk_timestamp = clock s (clock_reads s), blk_confidence = c,
                        packets_blocked = 0, reason = why,
                        last_seen = clock s (Suc (clock_reads s))\<rparr> (blocked_ips s)\<rparr>)"
  using assms by (simp add: block_ip_def sdn_block_ip_def Let_def time_time_def)

lemma body_blocks:
  assumes "map_of flow_info ''src_ip'' = Some ip"
    and "ip \<noteq> ''unknown''" and "ip \<noteq> ''0.0.0.0''" and "ip \<noteq> []"
    and "\<not> has_key (blocked_ips s) ip"
    and "prediction d = Some p" and "lower p = ''ddos''"
    and "confidence d = Some c" and "c \<ge> ddos_threshold (config s)"
    and "respond (sdn_controller s) (requests (sdn_controller s)) (Block ip)"
  shows "fst (execute_mitigation_body d flow_info s)
           = Inr (Blocked ip c (clock s (Suc (Suc (Suc (clock_reads s))))))"
    and "blocked_ips (snd (execute_mitigation_body d flow_info s))
           = AList.update ip
               \<lparr>blk_timestamp = clock s (clock_reads s), blk_confidence = c,
                packets_blocked = 0, reason = ''DDoS detected'',
                last_seen = clock s (Suc (clock_reads s))\<rparr> (blocked_ips s)"
    and "mitigation_history (snd (execute_mitigation_body d flow_info s))
           = mitigation_history s @
               [\<lparr>ev_timestamp = clock s (Suc (Suc (clock_reads s))), ev_ip = ip,
                 ev_confidence = c, action = ''BLOCKED'', details = flow_info\<rparr>]"
    and "sdn_controller (snd (execute_mitigation_body d flow_info s))
           = (sdn_controller s)\<lparr>requests := requests (sdn_controller s) @ [Block ip]\<rparr>"
    and "config (snd (execute_mitigation_body d flow_info s)) = config s"
  by (simp_all add: body_invalid_or_blocked_free [OF assms(1,2,3,5,6,7,8,9)]
        block_ip_succeeds [OF assms(10,4,2,3)] time_time_def)

lemma body_already_blocked:
  assumes "map_of flow_info ''src_ip'' = Some ip"
    and "ip \<noteq> ''unknown''" and "ip \<noteq> ''0.0.0.0''"
    and "map_of (blocked_ips s) ip = Some b"
  shows "fst (execute_mitigation_body d flow_info s)
           = Inr (Already_blocked ip (blk_timestamp b) (packets_blocked b + 1))"
    and "map_of (blocked_ips (snd (execute_mitigation_body d flow_info s))) ip
           = Some (b\<lparr>last_seen := clock s (clock_reads s), packets_blocked := packets_blocked b + 1\<rparr>)"
    and "mitigation_history (snd (execute_mitigation_body d flow_info s)) = mitigation_history s"
    and "sdn_controller (snd (execute_mitigation_body d flow_info s)) = sdn_controller s"
    and "config (snd (execute_mitigation_body d flow_info s)) = config s"
proof -
  have hk: "has_key (blocked_ips s) ip"
    using assms(4) by (simp add: has_key_def) (metis map_of_eq_None_iff option.distinct(1))
  show "fst (execute_mitigation_body d flow_info s)
           = Inr (Already_blocked ip (blk_timestamp b) (packets_blocked b + 1))"
    and "map_of (blocked_ips (snd (execute_mitigation_body d flow_info s))) ip
           = Some (b\<lparr>last_seen := clock s (clock_reads s), packets_blocked := packets_blocked b + 1\<rparr>)"
    and "mitigation_history (snd (execute_mitigation_body d flow_info s)) = mitigation_history s"
    and "sdn_controller (snd (execute_mitigation_body d flow_info s)) = sdn_controller s"
    and "config (snd (execute_mitigation_body d flow_info s)) = config s"
    using assms hk
    by (simp_all add: execute_mitigation_body_def is_ip_blocked_def Let_def time_time_def
          map_of_map_entry)
qed

lemma unblock_ip_fields:
  "mitigation_history (snd (unblock_ip s ip)) = mitigation_history s"
  "config (snd (unblock_ip s ip)) = config s"
  "respond (sdn_controller (snd (unblock_ip s ip))) = respond (sdn_controller s)"
  by (simp_all add: unblock_ip_def sdn_unblock_ip_def Let_def)

lemma unblock_all_fields:
  "mitigation_history (unblock_all s ips) = mitigation_history s"
  "config (unblock_all s ips) = config s"
  "respond (sdn_controller (unblock_all s ips)) = respond (sdn_controller s)"
  by (induction s ips rule: unblock_all.induct) (simp_all add: unblock_ip_fields)

lemma cleanup_history:
  "mitigation_history (cleanup_expired_blocks s) =
     (if int (length (mitigation_history s)) > max_history (config s)
      then slice_from (mitigation_history s) (- max_history (config s))
      else mitigation_history s)"
  and cleanup_config: "config (cleanup_expired_blocks s) = config s"
  by (simp_all add: cleanup_expired_blocks_def Let_def split_def unblock_all_fields
        time_time_fields)

lemma body_history:
  "\<exists>es. mitigation_history (snd (execute_mitigation_body d flow_info s)) = mitigation_history s @ es
        \<and> length es \<le> 1"
  by (auto simp: execute_mitigation_body_def is_ip_blocked_def block_ip_def sdn_block_ip_def
        Let_def split_def time_time_def split: option.splits)

lemma full_engine_after_block:
  "mitigation_history (snd (execute_mitigation full_engine ddos_detection attacker_flow))
     = replicate 1000 old_event @
         [\<lparr>ev_timestamp = 3, ev_ip = ''10.0.0.5'', ev_confidence = 0.9, action = ''BLOCKED'',
           details = attacker_flow\<rparr>]"
  "config (snd (execute_mitigation full_engine ddos_detection attacker_flow)) = default_config"
proof -
  let ?s = "snd (time_time full_engine)"
  have flow: "map_of attacker_flow ''src_ip'' = Some ''10.0.0.5''" by (simp add: attacker_flow_def)
  have nb: "\<not> has_key (blocked_ips ?s) ''10.0.0.5''"
    by (simp add: has_key_def time_time_fields full_engine_def engine0_def MitigationEngine_init_def)
  have cfg: "config ?s = default_config"
    by (simp add: time_time_fields full_engine_def engine0_def MitigationEngine_init_def)
  have thr: "0.9 \<ge> ddos_threshold (config ?s)" by (simp add: cfg default_config_def)
  have rs: "respond (sdn_controller ?s) (requests (sdn_controller ?s)) (Block ''10.0.0.5'')"
    by (simp add: time_time_fields full_engine_def engine0_def MitigationEngine_init_def)
  have p: "prediction ddos_detection = Some ''ddos''" and c: "confidence ddos_detection = Some 0.9"
    by (simp_all add: ddos_detection_def)
  note b = body_blocks [OF flow _ _ _ nb p lower_ddos c thr rs]
  have h0: "mitigation_history full_engine = replicate 1000 old_event"
    by (simp add: full_engine_def)
  have ck: "clock ?s (Suc (Suc (clock_reads ?s))) = 3"
    by (simp add: time_time_def full_engine_def engine0_def MitigationEngine_init_def)
  show "mitigation_history (snd (execute_mitigation full_engine ddos_detection attacker_flow))
     = replicate 1000 old_event @
         [\<lparr>ev_timestamp = 3, ev_ip = ''10.0.0.5'', ev_confidence = 0.9, action = ''BLOCKED'',
           details = attacker_flow\<rparr>]"
    by (simp add: execute_mitigation_def performance_monitor_fields b(3) time_time_fields h0 ck)
  show "config (snd (execute_mitigation full_engine ddos_detection attacker_flow)) = default_config"
    by (simp add: execute_mitigation_def performance_monitor_fields b(5) cfg)
qed

lemma unblock_ip_keeps:
  "(k, d) \<in> set (blocked_ips s) \<Longrightarrow> k \<noteq> ip \<Longrightarrow> (k, d) \<in> set (blocked_ips (snd (unblock_ip s ip)))"
  by (auto simp: unblock_ip_def sdn_unblock_ip_def Let_def AList.delete_eq)

lemma unblock_ip_keys_subset:
  "set (map fst (blocked_ips (snd (unblock_ip s ip)))) \<subseteq> set (map fst (blocked_ips s))"
  by (auto simp: unblock_ip_def sdn_unblock_ip_def Let_def AList.delete_eq)

lemma unblock_all_keeps:
  "(k, d) \<in> set (blocked_ips s) \<Longrightarrow> k \<notin> set ips \<Longrightarrow> (k, d) \<in> set (blocked_ips (unblock_all s ips))"
  by (induction s ips rule: unblock_all.induct) (auto simp: unblock_ip_keeps)

lemma unblock_all_keys_subset:
  "set (map fst (blocked_ips (unblock_all s ips))) \<subseteq> set (map fst (blocked_ips s))"
proof (induction s ips rule: unblock_all.induct)
  case (1 s)
  show ?case by simp
next
  case (2 s ip ips)
  then show ?case using unblock_ip_keys_subset [of s ip] by auto
qed

lemma unblock_ip_present:
  assumes "ip \<in> set (map fst (blocked_ips s))"
  shows "requests (sdn_controller (snd (unblock_ip s ip))) = requests (sdn_controller s) @ [Unblock ip]"
    and "respond (sdn_controller s) (requests (sdn_controller s)) (Unblock ip)
           \<Longrightarrow> ip \<notin> set (map fst (blocked_ips (snd (unblock_ip s ip))))"
    and "set (map fst (blocked_ips s)) - {ip} \<subseteq> set (map fst (blocked_ips (snd (unblock_ip s ip))))"
  using assms
  by (auto simp: unblock_ip_def sdn_unblock_ip_def Let_def has_key_def AList.delete_eq)

lemma unblock_all_removes:
  "distinct ips \<Longrightarrow> set ips \<subseteq> set (map fst (blocked_ips s)) \<Longrightarrow> ip \<in> set ips \<Longrightarrow>
   respond (sdn_controller s)
     (requests (sdn_controller s) @ map Unblock (takeWhile (\<lambda>x. x \<noteq> ip) ips)) (Unblock ip) \<Longrightarrow>
   ip \<notin> set (map fst (blocked_ips (unblock_all s ips)))"
proof (induction ips arbitrary: s)
  case Nil
  then show ?case by simp
next
  case (Cons a ips)
  have a_in: "a \<in> set (map fst (blocked_ips s))" using Cons.prems(2) by simp
  let ?s = "snd (unblock_ip s a)"
  show ?case
  proof (cases "a = ip")
    case True
    have "ip \<notin> set (map fst (blocked_ips ?s))"
      using unblock_ip_present(2) [OF a_in] Cons.prems(4) True by simp
    then show ?thesis using unblock_all_keys_subset [of ?s ips] by auto
  next
    case False
    have d: "distinct ips" and a_out: "a \<notin> set ips" using Cons.prems(1) by simp_all
    have sub: "set ips \<subseteq> set (map fst (blocked_ips ?s))"
      using unblock_ip_present(3) [OF a_in] Cons.prems(2) a_out by auto
    have mem: "ip \<in> set ips" using Cons.prems(3) False by simp
    have rq: "respond (sdn_controller ?s)
                (requests (sdn_controller ?s) @ map Unblock (takeWhile (\<lambda>x. x \<noteq> ip) ips)) (Unblock ip)"
      using Cons.prems(4) False
      by (simp add: unblock_ip_present(1) [OF a_in] unblock_ip_fields(3))
    show ?thesis using Cons.IH [OF d sub mem rq] by simp
  qed
qed

lemma expired_ips_time_time: "expired_ips (snd (time_time s)) now = expired_ips s now"
  by (simp add: expired_ips_def time_time_fields)

lemma expired_ips_distinct:
  "distinct (map fst (blocked_ips s)) \<Longrightarrow> distinct (expired_ips s now)"
  by (simp add: expired_ips_def distinct_map_filter)

lemma expired_ips_subset: "set (expired_ips s now) \<subseteq> set (map fst (blocked_ips s))"
  by (auto simp: expired_ips_def)

lemma cleanup_blocked_ips:
  "blocked_ips (cleanup_expired_blocks s) =
     blocked_ips (unblock_all (snd (time_time s)) (expired_ips s (clock s (clock_reads s))))"
  by (simp add: cleanup_expired_blocks_def Let_def split_def expired_ips_time_time
        time_time_fields(1))

lemma expired_engine_fields:
  "blocked_ips expired_engine =
     [(''10.0.0.5'', \<lparr>blk_timestamp = 0, blk_confidence = 0.9, packets_blocked = 0,
                      reason = ''DDoS detected'', last_seen = 0\<rparr>)]"
  "mitigation_history expired_engine = []"
  "config expired_engine = default_config"
  "sdn_controller expired_engine = \<lparr>respond = always_ok, requests = []\<rparr>"
  "clock expired_engine = tick"
  "clock_reads expired_engine = 4000"
  by (simp_all add: expired_engine_def engine0_def MitigationEngine_init_def)

lemma expired_engine_expired: "expired_ips expired_engine 4000 = [''10.0.0.5'']"
  by (simp add: expired_ips_def expired_engine_fields default_config_def)

subsection \<open>Unblocking an address that is not blocked\<close>

text \<open>
  Claim C10. For an address without a block record, \<open>unblock_ip\<close> returns False and leaves
  the whole state as it was: no request to the controller, the same registry and the same
  history.
\<close>

theorem unblock_ip_without_record:
  "ip \<notin> set (map fst (blocked_ips s)) \<Longrightarrow>
     unblock_ip s ip = (False, s) \<and>
     requests (sdn_controller (snd (unblock_ip s ip))) = requests (sdn_controller s) \<and>
     blocked_ips (snd (unblock_ip s ip)) = blocked_ips s \<and>
     mitigation_history (snd (unblock_ip s ip)) = mitigation_history s"
  by (simp add: unblock_ip_def has_key_def)

theorem unblock_ip_without_record_witness:
  "unblock_ip engine0 ''10.0.0.5'' = (False, engine0) \<and>
   requests (sdn_controller (snd (unblock_ip engine0 ''10.0.0.5''))) = []"
  using unblock_ip_without_record [of "''10.0.0.5''" engine0]
  by (simp add: engine0_def MitigationEngine_init_def)

subsection \<open>A block that the controller refuses\<close>

text \<open>
  Claim C6. For a valid source without a block record, judged a DDoS with a confidence at
  or above the threshold, a refused block request makes \<open>execute_mitigation\<close> return the
  result \<open>block_failed\<close>: no block record is created, no history entry is appended, and
  the registry, the history and the configuration are as before.
\<close>

theorem block_failure_atomicity:
  assumes "map_of flow_info ''src_ip'' = Some ip"
    and "ip \<noteq> ''unknown''" and "ip \<noteq> ''0.0.0.0''"
    and "ip \<notin> set (map fst (blocked_ips s))"
    and "prediction d = Some p" and "lower p = ''ddos''"
    and "confidence d = Some c" and "c \<ge> ddos_threshold (config s)"
    and "\<not> respond (sdn_controller s) (requests (sdn_controller s)) (Block ip)"
  shows "fst (execute_mitigation s d flow_info) = Inr (Block_failed ip) \<and>
         blocked_ips (snd (execute_mitigation s d flow_info)) = blocked_ips s \<and>
         mitigation_history (snd (execute_mitigation s d flow_info)) = mitigation_history s \<and>
         config (snd (execute_mitigation s d flow_info)) = config s"
proof -
  let ?s = "snd (time_time s)"
  have nb: "\<not> has_key (blocked_ips ?s) ip" using assms(4) by (simp add: has_key_def time_time_fields)
  have thr: "c \<ge> ddos_threshold (config ?s)" using assms(8) by (simp add: time_time_fields)
  have rs: "\<not> respond (sdn_controller ?s) (requests (sdn_controller ?s)) (Block ip)"
    using assms(9) by (simp add: time_time_fields)
  have body: "execute_mitigation_body d flow_info ?s =
                (Inr (Block_failed ip), snd (block_ip ?s ip ''DDoS detected'' c))"
    using block_ip_fails(1) [OF rs, of "''DDoS detected''" c]
    by (simp add: body_invalid_or_blocked_free [OF assms(1,2,3) nb assms(5,6,7) thr] split_def)
  show ?thesis
    by (simp add: execute_mitigation_def performance_monitor_fields body block_ip_fails [OF rs]
          time_time_fields)
qed

theorem block_failure_atomicity_witness:
  "fst (execute_mitigation engine_down ddos_detection attacker_flow) = Inr (Block_failed ''10.0.0.5'') \<and>
   blocked_ips (snd (execute_mitigation engine_down ddos_detection attacker_flow)) = [] \<and>
   mitigation_history (snd (execute_mitigation engine_down ddos_detection attacker_flow)) = []"
  using block_failure_atomicity [of attacker_flow "''10.0.0.5''" engine_down ddos_detection
          "''ddos''" "0.9"]
  by (simp add: attacker_flow_def engine_down_def ddos_detection_def MitigationEngine_init_def
        default_config_def lower_ddos)

subsection \<open>Evaluating a blocked source again\<close>

text \<open>
  Claim C2. Let a first \<open>execute_mitigation\<close> for a valid, not yet blocked source, with
  prediction ddos and a confidence at or above the threshold, be accepted by the
  controller. It returns \<open>blocked\<close>. A second call for the same source, whatever its
  detection result, returns \<open>already_blocked\<close> with the packet counter raised from 0 to 1,
  sends no request to the controller and appends nothing to the history: the two calls
  made one block request and one BLOCKED history entry.
\<close>

theorem mitigation_idempotence:
  assumes "map_of flow_info ''src_ip'' = Some ip"
    and "map_of flow_info2 ''src_ip'' = Some ip"
    and "ip \<noteq> ''unknown''" and "ip \<noteq> ''0.0.0.0''" and "ip \<noteq> []"
    and "ip \<notin> set (map fst (blocked_ips s))"
    and "prediction d = Some p" and "lower p = ''ddos''"
    and "confidence d = Some c" and "c \<ge> ddos_threshold (config s)"
    and "respond (sdn_controller s) (requests (sdn_controller s)) (Block ip)"
    and "execute_mitigation s d flow_info = (r1, s1)"
    and "execute_mitigation s1 d2 flow_info2 = (r2, s2)"
  shows "(\<exists>t. r1 = Inr (Blocked ip c t)) \<and>
         (\<exists>since. r2 = Inr (Already_blocked ip since 1)) \<and>
         requests (sdn_controller s1) = requests (sdn_controller s) @ [Block ip] \<and>
         requests (sdn_controller s2) = requests (sdn_controller s1) \<and>
         (\<exists>e. mitigation_history s1 = mitigation_history s @ [e] \<and>
              action e = ''BLOCKED'' \<and> ev_ip e = ip) \<and>
         mitigation_history s2 = mitigation_history s1 \<and>
         (\<exists>b. map_of (blocked_ips s1) ip = Some b \<and> packets_blocked b = 0) \<and>
         (\<exists>b. map_of (blocked_ips s2) ip = Some b \<and> packets_blocked b = 1)"
proof -
  let ?s = "snd (time_time s)"
  have nb: "\<not> has_key (blocked_ips ?s) ip" using assms(6) by (simp add: has_key_def time_time_fields)
  have thr: "c \<ge> ddos_threshold (config ?s)" using assms(10) by (simp add: time_time_fields)
  have rs: "respond (sdn_controller ?s) (requests (sdn_controller ?s)) (Block ip)"
    using assms(11) by (simp add: time_time_fields)
  note first = body_blocks [OF assms(1,3,4,5) nb assms(7,8,9) thr rs]
  have r1: "r1 = fst (execute_mitigation s d flow_info)" and s1: "s1 = snd (execute_mitigation s d flow_info)"
    using assms(12) by simp_all
  have a1: "\<exists>t. r1 = Inr (Blocked ip c t)"
    by (simp add: r1 execute_mitigation_def performance_monitor_fields first(1))
  have b1: "blocked_ips s1 = AList.update ip
               \<lparr>blk_timestamp = clock ?s (clock_reads ?s), blk_confidence = c,
                packets_blocked = 0, reason = ''DDoS detected'',
                last_seen = clock ?s (Suc (clock_reads ?s))\<rparr> (blocked_ips s)"
    by (simp add: s1 execute_mitigation_def performance_monitor_fields first(2) time_time_fields)
  have h1: "mitigation_history s1 = mitigation_history s @
               [\<lparr>ev_timestamp = clock ?s (Suc (Suc (clock_reads ?s))), ev_ip = ip,
                 ev_confidence = c, action = ''BLOCKED'', details = flow_info\<rparr>]"
    by (simp add: s1 execute_mitigation_def performance_monitor_fields first(3) time_time_fields)
  have c1: "requests (sdn_controller s1) = requests (sdn_controller s) @ [Block ip]"
    by (simp add: s1 execute_mitigation_def performance_monitor_fields first(4) time_time_fields)
  let ?b = "\<lparr>blk_timestamp = clock ?s (clock_reads ?s), blk_confidence = c,
                packets_blocked = 0, reason = ''DDoS detected'',
                last_seen = clock ?s (Suc (clock_reads ?s))\<rparr>"
  have m1: "map_of (blocked_ips s1) ip = Some ?b" by (simp add: b1 update_conv')
  let ?t = "snd (time_time s1)"
  have m1': "map_of (blocked_ips ?t) ip = Some ?b" using m1 by (simp add: time_time_fields)
  note second = body_already_blocked [OF assms(2,3,4) m1', of d2]
  have r2: "r2 = fst (execute_mitigation s1 d2 flow_info2)" and s2: "s2 = snd (execute_mitigation s1 d2 flow_info2)"
    using assms(13) by simp_all
  have a2: "\<exists>since. r2 = Inr (Already_blocked ip since 1)"
    by (simp add: r2 execute_mitigation_def performance_monitor_fields second(1))
  have m2: "\<exists>b. map_of (blocked_ips s2) ip = Some b \<and> packets_blocked b = 1"
    by (simp add: s2 execute_mitigation_def performance_monitor_fields second(2))
  have h2: "mitigation_history s2 = mitigation_history s1"
    by (simp add: s2 execute_mitigation_def performance_monitor_fields second(3) time_time_fields)
  have c2: "requests (sdn_controller s2) = requests (sdn_controller s1)"
    by (simp add: s2 execute_mitigation_def performance_monitor_fields second(4) time_time_fields)
  show ?thesis using a1 a2 c1 c2 h1 h2 m1 m2 by simp
qed

theorem mitigation_idempotence_witness:
  "(\<exists>t. fst (execute_mitigation engine0 ddos_detection attacker_flow)
          = Inr (Blocked ''10.0.0.5'' 0.9 t)) \<and>
   (\<exists>since. fst (execute_mitigation (snd (execute_mitigation engine0 ddos_detection attacker_flow))
                  ddos_detection attacker_flow)
          = Inr (Already_blocked ''10.0.0.5'' since 1)) \<and>
   requests (sdn_controller
      (snd (execute_mitigation (snd (execute_mitigation engine0 ddos_detection attacker_flow))
                  ddos_detection attacker_flow))) = [Block ''10.0.0.5'']"
  using mitigation_idempotence [of attacker_flow "''10.0.0.5''" attacker_flow engine0
          ddos_detection "''ddos''" "0.9"
          "fst (execute_mitigation engine0 ddos_detection attacker_flow)"
          "snd (execute_mitigation engine0 ddos_detection attacker_flow)"
          ddos_detection
          "fst (execute_mitigation (snd (execute_mitigation engine0 ddos_detection attacker_flow))
                  ddos_detection attacker_flow)"
          "snd (execute_mitigation (snd (execute_mitigation engine0 ddos_detection attacker_flow))
                  ddos_detection attacker_flow)"]
  by (simp add: attacker_flow_def engine0_def ddos_detection_def MitigationEngine_init_def
        default_config_def lower_ddos)

subsection \<open>The bound on the history\<close>

text \<open>
  Claim C9 says that every append keeps the history within \<open>max_history\<close> entries. The
  append of \<open>execute_mitigation\<close> does not truncate: from a history of 1000 entries, with
  \<open>max_history\<close> 1000, a successful block leaves 1001.
\<close>

theorem history_overflow_counterexample:
  "int (length (mitigation_history (snd (execute_mitigation full_engine ddos_detection attacker_flow))))
     = 1001 \<and>
   max_history (config (snd (execute_mitigation full_engine ddos_detection attacker_flow))) = 1000"
  by (simp add: full_engine_after_block default_config_def)

text \<open>
  Claim C9, amended. The history is cut to its most recent \<open>max_history\<close> entries by the
  periodic sweep only: for a positive \<open>max_history\<close>, after \<open>_cleanup_expired_blocks\<close> the
  history holds at most \<open>max_history\<close> entries, the oldest ones dropped, without error.
  \<open>execute_mitigation\<close> appends at most one entry and drops none, so that between two
  sweeps the history may be longer than \<open>max_history\<close>.
\<close>

theorem history_bound_at_sweep:
  "(0 < max_history (config s) \<longrightarrow>
      int (length (mitigation_history (cleanup_expired_blocks s))) \<le> max_history (config s) \<and>
      mitigation_history (cleanup_expired_blocks s) =
        drop (length (mitigation_history s) - nat (max_history (config s))) (mitigation_history s)) \<and>
   (\<exists>es. mitigation_history (snd (execute_mitigation s d flow_info)) = mitigation_history s @ es \<and>
         length es \<le> 1)"
proof
  show "0 < max_history (config s) \<longrightarrow>
      int (length (mitigation_history (cleanup_expired_blocks s))) \<le> max_history (config s) \<and>
      mitigation_history (cleanup_expired_blocks s) =
        drop (length (mitigation_history s) - nat (max_history (config s))) (mitigation_history s)"
    by (auto simp: cleanup_history slice_from_def nat_diff_distrib)
  show "\<exists>es. mitigation_history (snd (execute_mitigation s d flow_info)) = mitigation_history s @ es \<and>
         length es \<le> 1"
    using body_history [of d flow_info "snd (time_time s)"]
    by (simp add: execute_mitigation_def performance_monitor_fields time_time_fields)
qed

theorem history_bound_at_sweep_witness:
  "int (length (mitigation_history (cleanup_expired_blocks
          (snd (execute_mitigation full_engine ddos_detection attacker_flow))))) \<le> 1000 \<and>
   (\<exists>es. mitigation_history (snd (execute_mitigation full_engine ddos_detection attacker_flow))
           = mitigation_history full_engine @ es \<and> length es \<le> 1)"
  using history_bound_at_sweep
          [of "snd (execute_mitigation full_engine ddos_detection attacker_flow)"]
        history_bound_at_sweep [of full_engine ddos_detection attacker_flow]
  by (simp add: full_engine_after_block(2) default_config_def)

subsection \<open>Expiry of a block\<close>

text \<open>
  Claim C5 says that the sweep appends an EXPIRED history entry when it removes a record.
  The code has no such entry: the sweep at time 4000 removes the record made at time 0 with
  a block duration of 3600, and the history is still empty.
\<close>

theorem expiry_no_history_counterexample:
  "blocked_ips (cleanup_expired_blocks expired_engine) = [] \<and>
   mitigation_history (cleanup_expired_blocks expired_engine) = []"
proof -
  have "blocked_ips (cleanup_expired_blocks expired_engine) = []"
    by (simp add: cleanup_blocked_ips expired_engine_fields expired_engine_expired
          unblock_ip_def sdn_unblock_ip_def has_key_def time_time_fields)
  moreover have "mitigation_history (cleanup_expired_blocks expired_engine) = []"
    by (simp add: cleanup_history expired_engine_fields default_config_def)
  ultimately show ?thesis by simp
qed

text \<open>
  Claim C5, amended. Let the registry hold a record for an address, made at time T, and
  let the sweep read the time \<open>now\<close>. If \<open>now\<close> is later than T plus the block duration and
  the controller accepts the sweep's unblock request for the address, the record is removed.
  If \<open>now\<close> is at most T plus the block duration, the record stays. The sweep appends no
  history entry: the history after it is the history before, less some of its oldest
  entries.
\<close>

theorem expiry_sweep:
  assumes "distinct (map fst (blocked_ips s))"
    and "(ip, d) \<in> set (blocked_ips s)"
    and "now = clock s (clock_reads s)"
  shows "(now > blk_timestamp d + block_duration (config s) \<and>
          respond (sdn_controller s)
            (requests (sdn_controller s) @
               map Unblock (takeWhile (\<lambda>x. x \<noteq> ip) (expired_ips s now))) (Unblock ip)
            \<longrightarrow> ip \<notin> set (map fst (blocked_ips (cleanup_expired_blocks s)))) \<and>
         (now \<le> blk_timestamp d + block_duration (config s)
            \<longrightarrow> (ip, d) \<in> set (blocked_ips (cleanup_expired_blocks s))) \<and>
         (\<exists>n. mitigation_history (cleanup_expired_blocks s) = drop n (mitigation_history s))"
proof (intro conjI impI)
  let ?s = "snd (time_time s)"
  assume h: "now > blk_timestamp d + block_duration (config s) \<and>
          respond (sdn_controller s)
            (requests (sdn_controller s) @
               map Unblock (takeWhile (\<lambda>x. x \<noteq> ip) (expired_ips s now))) (Unblock ip)"
  have mem: "ip \<in> set (expired_ips s now)"
    using assms(2) h by (force simp: expired_ips_def)
  have sub: "set (expired_ips s now) \<subseteq> set (map fst (blocked_ips ?s))"
    using expired_ips_subset [of s now] by (simp add: time_time_fields)
  have rq: "respond (sdn_controller ?s)
            (requests (sdn_controller ?s) @
               map Unblock (takeWhile (\<lambda>x. x \<noteq> ip) (expired_ips s now))) (Unblock ip)"
    using h by (simp add: time_time_fields)
  show "ip \<notin> set (map fst (blocked_ips (cleanup_expired_blocks s)))"
    using unblock_all_removes [OF expired_ips_distinct [OF assms(1)] sub mem rq]
    by (simp add: cleanup_blocked_ips assms(3))
next
  assume h: "now \<le> blk_timestamp d + block_duration (config s)"
  have "ip \<notin> set (expired_ips s now)"
  proof
    assume "ip \<in> set (expired_ips s now)"
    then obtain d' where d': "(ip, d') \<in> set (blocked_ips s)"
      "now - blk_timestamp d' > block_duration (config s)"
      by (auto simp: expired_ips_def)
    have "d' = d" using assms(1,2) d'(1) by (metis eq_key_imp_eq_value)
    then show False using d'(2) h by simp
  qed
  moreover have "(ip, d) \<in> set (blocked_ips (snd (time_time s)))"
    using assms(2) by (simp add: time_time_fields)
  ultimately show "(ip, d) \<in> set (blocked_ips (cleanup_expired_blocks s))"
    by (simp add: cleanup_blocked_ips assms(3) unblock_all_keeps)
next
  show "\<exists>n. mitigation_history (cleanup_expired_blocks s) = drop n (mitigation_history s)"
  proof (cases "int (length (mitigation_history s)) > max_history (config s)")
    case True
    then show ?thesis by (auto simp: cleanup_history slice_from_def)
  next
    case False
    then have "mitigation_history (cleanup_expired_blocks s) = drop 0 (mitigation_history s)"
      by (simp add: cleanup_history)
    then show ?thesis by blast
  qed
qed

theorem expiry_sweep_witness:
  "''10.0.0.5'' \<notin> set (map fst (blocked_ips (cleanup_expired_blocks expired_engine))) \<and>
   (''10.0.0.5'', \<lparr>blk_timestamp = 0, blk_confidence = 0.9, packets_blocked = 0,
                   reason = ''DDoS detected'', last_seen = 0\<rparr>)
      \<in> set (blocked_ips (cleanup_expired_blocks (expired_engine\<lparr>clock_reads := 3600\<rparr>)))"
proof -
  let ?d = "\<lparr>blk_timestamp = 0, blk_confidence = 0.9, packets_blocked = 0,
             reason = ''DDoS detected'', last_seen = 0\<rparr>"
  have a: "''10.0.0.5'' \<notin> set (map fst (blocked_ips (cleanup_expired_blocks expired_engine)))"
    using expiry_sweep [of expired_engine "''10.0.0.5''" ?d 4000]
    by (simp add: expired_engine_fields expired_engine_expired default_config_def)
  have b: "(''10.0.0.5'', ?d)
      \<in> set (blocked_ips (cleanup_expired_blocks (expired_engine\<lparr>clock_reads := 3600\<rparr>)))"
    using expiry_sweep [of "expired_engine\<lparr>clock_reads := 3600\<rparr>" "''10.0.0.5''" ?d 3600]
    by (simp add: expired_engine_fields default_config_def)
  show ?thesis using a b by simp
qed

end
